theory Spec2Isabelle
  imports
    Main
    "HOL-Library.Char_ord"
    "HOL-Library.List_Lexorder"
    "HOL-Library.AList"
    "HOL-Library.Product_Lexorder"
begin

section \<open>Values and errors\<close>

text \<open>
  The configuration values that the contexts of \<^verbatim>\<open>ronin/contexts.py\<close> hold are arbitrary
  Python objects. The model keeps the ones the build-file generator reads: \<^verbatim>\<open>None\<close>,
  booleans, integers and strings. Every exception the modelled code raises is a
  constructor of \<open>error\<close>; a function that can raise returns \<open>error + 'a\<close>.
\<close>

datatype val = VNone | VBool bool | VInt int | VStr string

datatype error =
    NoContextException
  | NotInContextException string
  | ImmutableContextException
  | IncorrectUseOfContextException string
  | RuntimeError string
  | ValueError string
  | TypeError string
  | AttributeError string
  | UnboundLocalError string

section \<open>Contexts and namespaces (ronin/contexts.py)\<close>

text \<open>
  A \<^verbatim>\<open>_Namespace\<close> object is its instance dictionary. The two entries named in
  \<^verbatim>\<open>_Namespace.LOCAL\<close> are fields of their own: \<open>ns_name\<close> is \<^verbatim>\<open>self._name\<close>, and
  \<open>ns_context\<close> is \<^verbatim>\<open>self._context\<close>, where \<open>None\<close> stands for the reference to the owning
  context that \<^verbatim>\<open>__init__\<close> stored and \<open>Some v\<close> for a value written over it later.
  \<open>ns_dict\<close> holds every other entry of \<^verbatim>\<open>vars(self)\<close>; a Python dictionary is an
  association list with distinct keys.

  A \<^verbatim>\<open>Context\<close> is the chain that its \<^verbatim>\<open>_parent\<close> references form, so every operation
  that touches an ancestor returns the whole updated chain.

  Python calls \<^verbatim>\<open>__getattr__\<close> only for a name that the instance dictionary and the class
  do not have. The names that the two classes define themselves (methods, properties,
  \<^verbatim>\<open>LOCAL\<close>, the names Python gives every object) are no namespace names and no keys of
  the model.
\<close>

record namespace =
  ns_name :: val
  ns_context :: "val option"
  ns_dict :: "(string \<times> val) list"

datatype Context =
  Context (parent: "Context option") (immutable: bool) (namespaces: "(string \<times> namespace) list")

definition Context_LOCAL :: "string list" where
  "Context_LOCAL = [''_parent'', ''_immutable'', ''_namespaces'']"

definition Namespace_LOCAL :: "string list" where
  "Namespace_LOCAL = [''_name'', ''_context'']"

text \<open>\<^verbatim>\<open>Context.__init__(parent, immutable)\<close> and \<^verbatim>\<open>_Namespace.__init__(name, context)\<close>.\<close>

definition Context_init :: "Context option \<Rightarrow> bool \<Rightarrow> Context" where
  "Context_init p imm = Context p imm []"

definition Namespace_init :: "string \<Rightarrow> namespace" where
  "Namespace_init name = \<lparr>ns_name = VStr name, ns_context = None, ns_dict = []\<rparr>"

text \<open>
  The thread-local stack of \<^verbatim>\<open>_ContextStack\<close> is a list whose last element is the top.
  \<^verbatim>\<open>current_context(immutable)\<close> wraps the top in a fresh immutable child unless the
  caller asks for the top itself; \<^verbatim>\<open>new_context()\<close> makes a mutable child of the top.
\<close>

definition peek :: "Context list \<Rightarrow> Context option" where
  "peek stack = (if stack = [] then None else Some (last stack))"

definition current_context :: "Context list \<Rightarrow> bool \<Rightarrow> error + Context" where
  "current_context stack imm =
     (case peek stack of
        None \<Rightarrow> Inl NoContextException
      | Some c \<Rightarrow> Inr (if imm then Context_init (Some c) True else c))"

definition new_context :: "Context list \<Rightarrow> Context" where
  "new_context stack = Context_init (peek stack) False"

text \<open>
  \<^verbatim>\<open>Context.__getattr__(name)\<close>: the namespace registered under \<open>name\<close>, created and
  registered first when there is none. The result is the namespace together with the
  context that now holds it.
\<close>

definition Context_getattr :: "Context \<Rightarrow> string \<Rightarrow> error + (namespace \<times> Context)" where
  "Context_getattr c name =
     (if name \<in> set Context_LOCAL then Inl (RuntimeError ''context not initialized?'')
      else case map_of (namespaces c) name of
             Some ns \<Rightarrow> Inr (ns, c)
           | None \<Rightarrow>
               Inr (Namespace_init name,
                    Context (parent c) (immutable c) (namespaces c @ [(name, Namespace_init name)])))"

fun chain_length :: "Context \<Rightarrow> nat" where
  "chain_length (Context None imm nss) = 1"
| "chain_length (Context (Some p) imm nss) = Suc (chain_length p)"

definition set_parent :: "Context \<Rightarrow> Context \<Rightarrow> Context" where
  "set_parent c p = Context (Some p) (immutable c) (namespaces c)"

lemma chain_length_Context_getattr:
  "Context_getattr c name = Inr (ns, c') \<Longrightarrow> chain_length c' = chain_length c"
  by (cases c; cases "parent c")
     (auto simp: Context_getattr_def split: if_splits option.splits)

text \<open>
  \<open>getattr c ns name\<close> is Python's \<^verbatim>\<open>getattr(namespace, name)\<close> for the namespace \<open>ns\<close>
  owned by \<open>c\<close>: the instance dictionary first, \<^verbatim>\<open>_Namespace.__getattr__\<close> otherwise.
  \<open>Namespace_getattr\<close> is that method: it fails with \<^verbatim>\<open>NotInContextException\<close> at the root
  of the chain and asks the parent context's namespace of the same name otherwise. A
  value written over \<^verbatim>\<open>_context\<close> has no \<^verbatim>\<open>_parent\<close> (an \<^verbatim>\<open>AttributeError\<close>), and a
  \<^verbatim>\<open>_name\<close> that is no string is no attribute name (a \<^verbatim>\<open>TypeError\<close>).
\<close>

function getattr :: "Context \<Rightarrow> namespace \<Rightarrow> string \<Rightarrow> (error + val) \<times> Context"
  and Namespace_getattr :: "Context \<Rightarrow> namespace \<Rightarrow> string \<Rightarrow> (error + val) \<times> Context"
where
  "getattr c ns name =
     (case map_of (ns_dict ns) name of
        Some v \<Rightarrow> (Inr v, c)
      | None \<Rightarrow> Namespace_getattr c ns name)"
| "Namespace_getattr c ns name =
     (if name \<in> set Namespace_LOCAL then (Inl (RuntimeError ''namespace not initialized?''), c)
      else case ns_context ns of
        Some v \<Rightarrow> (Inl (AttributeError ''_parent''), c)
      | None \<Rightarrow>
         (case parent c of
            None \<Rightarrow> (Inl (NotInContextException name), c)
          | Some p \<Rightarrow>
             (case ns_name ns of
                VStr s \<Rightarrow>
                  (case Context_getattr p s of
                     Inl e \<Rightarrow> (Inl e, c)
                   | Inr (pns, p1) \<Rightarrow>
                       (case getattr p1 pns name of (r, p2) \<Rightarrow> (r, set_parent c p2)))
              | _ \<Rightarrow> (Inl (TypeError ''getattr(): attribute name must be string''), c))))"
  by pat_completeness auto
termination
proof (relation "measure (\<lambda>x. case x of
          Inl (c, ns, name) \<Rightarrow> 2 * chain_length c + 1
        | Inr (c, ns, name) \<Rightarrow> 2 * chain_length c)")
  show "wf (measure (\<lambda>x. case x of
          Inl (c, ns, name) \<Rightarrow> 2 * chain_length c + 1
        | Inr (c, ns, name) \<Rightarrow> 2 * chain_length c))"
    by simp
next
  fix c :: Context and ns :: namespace and name :: string
  show "(Inr (c, ns, name), Inl (c, ns, name)) \<in> measure (\<lambda>x. case x of
          Inl (c, ns, name) \<Rightarrow> 2 * chain_length c + 1
        | Inr (c, ns, name) \<Rightarrow> 2 * chain_length c)"
    by simp
next
  fix c :: Context and ns :: namespace and name :: string
    and p :: Context and s :: string and y :: "namespace \<times> Context"
    and pns :: namespace and p1 :: Context
  assume "parent c = Some p" and "Context_getattr p s = Inr y" and "(pns, p1) = y"
  then have "chain_length p1 = chain_length p" and "chain_length c = Suc (chain_length p)"
    by (auto dest: chain_length_Context_getattr [of p s pns p1] simp: Context.expand
             intro: Context.exhaust [of c])
  then show "(Inl (p1, pns, name), Inr (c, ns, name)) \<in> measure (\<lambda>x. case x of
          Inl (c, ns, name) \<Rightarrow> 2 * chain_length c + 1
        | Inr (c, ns, name) \<Rightarrow> 2 * chain_length c)"
    by simp
qed


text \<open>The attribute read \<^verbatim>\<open>ctx.<namespace_name>.<name>\<close>.\<close>

definition attribute_read :: "Context \<Rightarrow> string \<Rightarrow> string \<Rightarrow> (error + val) \<times> Context" where
  "attribute_read c namespace_name name =
     (case Context_getattr c namespace_name of
        Inl e \<Rightarrow> (Inl e, c)
      | Inr (ns, c1) \<Rightarrow> getattr c1 ns name)"

text \<open>
  Python's \<^verbatim>\<open>s.split(sep, maxsplit)\<close> for a separator of one character: at most
  \<open>maxsplit\<close> cuts, so at most \<open>maxsplit + 1\<close> parts.
\<close>

fun str_split :: "char \<Rightarrow> nat \<Rightarrow> string \<Rightarrow> string list" where
  "str_split sep 0 s = [s]"
| "str_split sep (Suc n) s =
     (if sep \<in> set s
      then takeWhile (\<lambda>ch. ch \<noteq> sep) s # str_split sep n (tl (dropWhile (\<lambda>ch. ch \<noteq> sep) s))
      else [s])"

text \<open>
  \<^verbatim>\<open>Context.get(name, default)\<close>. The assignment
  \<^verbatim>\<open>namespace_name, name = name.split('.', 2)\<close> unpacks into two names, and raises
  \<^verbatim>\<open>ValueError\<close> when the split has three parts. Only \<^verbatim>\<open>NotInContextException\<close> is
  caught.
\<close>

definition Context_get :: "Context \<Rightarrow> string \<Rightarrow> val \<Rightarrow> (error + val) \<times> Context" where
  "Context_get c name dflt =
     (if CHR ''.'' \<notin> set name then (Inr dflt, c)
      else case str_split (CHR ''.'') 2 name of
        [namespace_name, key] \<Rightarrow>
          (case Context_getattr c namespace_name of
             Inl e \<Rightarrow> (Inl e, c)
           | Inr (ns, c1) \<Rightarrow>
               (case getattr c1 ns key of
                  (Inr v, c2) \<Rightarrow> (Inr v, c2)
                | (Inl e, c2) \<Rightarrow>
                    (case e of
                       NotInContextException k \<Rightarrow> (Inr dflt, c2)
                     | _ \<Rightarrow> (Inl e, c2))))
      | parts \<Rightarrow> (Inl (ValueError ''too many values to unpack''), c))"

text \<open>\<^verbatim>\<open>Context.fallback(value, name, default)\<close>.\<close>

definition Context_fallback :: "Context \<Rightarrow> val \<Rightarrow> string \<Rightarrow> val \<Rightarrow> (error + val) \<times> Context" where
  "Context_fallback c v name dflt =
     (if v = VNone then Context_get c name dflt else (Inr v, c))"

text \<open>
  \<^verbatim>\<open>_Namespace.__setattr__(name, value)\<close> on the namespace \<open>ns\<close> owned by \<open>c\<close>. The
  immutability test is skipped for the names in \<^verbatim>\<open>LOCAL\<close>, and an \<^verbatim>\<open>AttributeError\<close>
  of the test itself (a \<^verbatim>\<open>_context\<close> that is no context) is swallowed. Then
  \<^verbatim>\<open>object.__setattr__\<close> stores the value in the instance dictionary, keeping the
  position of a key that is there already.
\<close>

definition object_setattr :: "namespace \<Rightarrow> string \<Rightarrow> val \<Rightarrow> namespace" where
  "object_setattr ns name v =
     (if name = ''_name'' then ns\<lparr>ns_name := v\<rparr>
      else if name = ''_context'' then ns\<lparr>ns_context := Some v\<rparr>
      else ns\<lparr>ns_dict := AList.update name v (ns_dict ns)\<rparr>)"

definition Namespace_setattr :: "Context \<Rightarrow> namespace \<Rightarrow> string \<Rightarrow> val \<Rightarrow> error + namespace" where
  "Namespace_setattr c ns name v =
     (if name \<notin> set Namespace_LOCAL \<and> ns_context ns = None \<and> immutable c
      then Inl ImmutableContextException
      else Inr (object_setattr ns name v))"

text \<open>
  The attribute write \<^verbatim>\<open>ctx.<namespace_name>.<name> = value\<close>: the namespace is looked
  up (and registered when new) before \<^verbatim>\<open>__setattr__\<close> runs, so the registration stays
  when the write is refused.
\<close>

definition attribute_write :: "Context \<Rightarrow> string \<Rightarrow> string \<Rightarrow> val \<Rightarrow> (error + unit) \<times> Context" where
  "attribute_write c namespace_name name v =
     (case Context_getattr c namespace_name of
        Inl e \<Rightarrow> (Inl e, c)
      | Inr (ns, c1) \<Rightarrow>
          (case Namespace_setattr c1 ns name v of
             Inl e \<Rightarrow> (Inl e, c1)
           | Inr ns' \<Rightarrow>
               (Inr (), Context (parent c1) (immutable c1)
                          (AList.update namespace_name ns' (namespaces c1)))))"


text \<open>
  Serialization. \<^verbatim>\<open>_Namespace._all_local\<close> sorts the instance dictionary by key and
  drops the \<^verbatim>\<open>LOCAL\<close> names and every key that starts with an underscore.
  \<^verbatim>\<open>Context._all\<close> starts from the parent's \<^verbatim>\<open>_all\<close> and assigns its own entries into
  that \<^verbatim>\<open>OrderedDict\<close>, namespaces sorted by name and keys sorted within each; an
  assignment to a key that is there already keeps the key's position.
  \<^verbatim>\<open>Context._write\<close> prints one line per entry whose dotted key does not start with an
  underscore, and \<^verbatim>\<open>__str__\<close> is the text written.
\<close>

definition startswith :: "string \<Rightarrow> string \<Rightarrow> bool" where
  "startswith s p = (take (length p) s = p)"










section \<open>The line writer (ronin/ninja.py, class _Writer)\<close>

text \<open>
  Python's index arithmetic on a string. A slice bound or a search bound \<open>k\<close> counts
  from the end when it is negative and is clipped to the string: \<open>norm_index k n\<close> is
  the position it names in a string of length \<open>n\<close>. \<open>slice_to s k\<close> is \<^verbatim>\<open>s[:k]\<close>,
  \<open>slice_from s k\<close> is \<^verbatim>\<open>s[k:]\<close>, \<open>rfind_space s e\<close> is \<^verbatim>\<open>s.rfind(' ', 0, e)\<close> and
  \<open>find_space s b\<close> is \<^verbatim>\<open>s.find(' ', b)\<close>; both searches answer \<open>-1\<close> when there is no
  space in their range.
\<close>

definition norm_index :: "int \<Rightarrow> nat \<Rightarrow> nat" where
  "norm_index k n = (if k < 0 then nat (k + int n) else min (nat k) n)"

definition slice_to :: "string \<Rightarrow> int \<Rightarrow> string" where
  "slice_to s k = take (norm_index k (length s)) s"

definition slice_from :: "string \<Rightarrow> int \<Rightarrow> string" where
  "slice_from s k = drop (norm_index k (length s)) s"

fun last_space_before :: "string \<Rightarrow> nat \<Rightarrow> int" where
  "last_space_before s 0 = - 1"
| "last_space_before s (Suc i) =
     (if s ! i = CHR '' '' then int i else last_space_before s i)"

definition rfind_space :: "string \<Rightarrow> int \<Rightarrow> int" where
  "rfind_space s e = last_space_before s (norm_index e (length s))"

definition find_space :: "string \<Rightarrow> int \<Rightarrow> int" where
  "find_space s b =
     (let start = norm_index b (length s);
          i = start + length (takeWhile (\<lambda>ch. ch \<noteq> CHR '' '') (drop start s))
      in if i < length s then int i else - 1)"

text \<open>
  \<^verbatim>\<open>_Writer._is_unescaped(line, i)\<close>: the loop counts the \<^verbatim>\<open>$\<close> characters that stand
  directly before position \<open>i\<close>, walking down while \<^verbatim>\<open>dollar_index > 0\<close>; so it never
  looks at position 0.
\<close>

function dollar_count :: "string \<Rightarrow> int \<Rightarrow> nat" where
  "dollar_count line dollar_index =
     (if dollar_index > 0 \<and> line ! nat dollar_index = CHR ''$''
      then Suc (dollar_count line (dollar_index - 1))
      else 0)"
  by pat_completeness auto
termination
  by (relation "measure (\<lambda>(line, dollar_index). nat dollar_index)") auto

definition is_unescaped :: "string \<Rightarrow> int \<Rightarrow> bool" where
  "is_unescaped line i = (dollar_count line (i - 1) mod 2 = 0)"

text \<open>
  The two searches of \<^verbatim>\<open>_Writer.line\<close> for a place to break: \<open>first_try\<close> walks back
  from \<open>space\<close> to the last space that \<open>is_unescaped\<close> accepts, \<open>second_try\<close> walks
  forward from \<open>space + 1\<close> to the first one. Each answers \<open>-1\<close> when it finds none.
\<close>

lemma last_space_before_less: "last_space_before s m < int m"
  by (induction m) auto

lemma last_space_before_bound: "- 1 \<le> last_space_before s m"
  by (induction m) auto

function first_try :: "string \<Rightarrow> int \<Rightarrow> int" where
  "first_try line space =
     (let found = rfind_space line space
      in if found < 0 \<or> is_unescaped line found then found else first_try line found)"
  by pat_completeness auto
termination
proof (relation "measure (\<lambda>(line, space). norm_index space (length line))")
  show "wf (measure (\<lambda>(line, space). norm_index space (length line)))"
    by simp
next
  fix line :: string and space found :: int
  assume f: "found = rfind_space line space" and n: "\<not> (found < 0 \<or> is_unescaped line found)"
  have "found < int (norm_index space (length line))"
    unfolding f rfind_space_def by (rule last_space_before_less)
  moreover have "norm_index space (length line) \<le> length line"
    by (auto simp: norm_index_def)
  ultimately have "norm_index found (length line) < norm_index space (length line)"
    using n by (auto simp: norm_index_def [of found])
  then show "((line, found), (line, space)) \<in>
      measure (\<lambda>(line, space). norm_index space (length line))"
    by simp
qed

function second_try :: "string \<Rightarrow> int \<Rightarrow> int" where
  "second_try line space =
     (let found = find_space line (space + 1)
      in if found < 0 \<or> is_unescaped line found then found else second_try line found)"
  by pat_completeness auto
termination
proof (relation "measure (\<lambda>(line, space). length line - norm_index (space + 1) (length line))")
  show "wf (measure (\<lambda>(line, space). length line - norm_index (space + 1) (length line)))"
    by simp
next
  fix line :: string and space found :: int
  assume f: "found = find_space line (space + 1)"
    and n: "\<not> (found < 0 \<or> is_unescaped line found)"
  have "int (norm_index (space + 1) (length line)) \<le> found \<and> found < int (length line)"
    using f n by (auto simp: find_space_def Let_def split: if_splits)
  then have "norm_index (space + 1) (length line) < norm_index (found + 1) (length line)
      \<and> norm_index (space + 1) (length line) < length line"
    by (auto simp: norm_index_def [of "found + 1"])
  then show "((line, found), (line, space)) \<in>
      measure (\<lambda>(line, space). length line - norm_index (space + 1) (length line))"
    by auto
qed

text \<open>
  \<^verbatim>\<open>_Writer.line(line, indent)\<close> with a column budget: \<open>line_loop\<close> is the outer
  \<^verbatim>\<open>while\<close> loop together with the final write, \<open>out\<close> the texts written so far, one
  per \<^verbatim>\<open>io.write\<close>. The loop need not end (a hard break of width 0 leaves the line
  as it is), so its result is an option and \<open>None\<close> means that it runs forever.
\<close>

definition INDENT :: string where
  "INDENT = ''  ''"

definition newline :: string where
  "newline = [CHR 0x0A]"

partial_function (option) line_loop ::
  "int \<Rightarrow> bool \<Rightarrow> string \<Rightarrow> int \<Rightarrow> bool \<Rightarrow> string \<Rightarrow> string list \<Rightarrow> string list option"
where
  "line_loop columns strict indentation leading_space_length broken line out =
     (if leading_space_length + int (length line) > columns then
        (let width = columns - leading_space_length - 2;
             space1 = first_try line width;
             space = (if space1 < 0 \<and> \<not> strict then second_try line (width - 1) else space1)
         in if space \<noteq> - 1 then
              line_loop columns strict
                (if broken then indentation else indentation @ INDENT)
                (if broken then leading_space_length
                 else leading_space_length + int (length INDENT))
                True
                (slice_from line (space + 1))
                (out @ [indentation @ slice_to line space @ '' $'' @ newline])
            else if strict then
              line_loop columns strict indentation leading_space_length broken
                (slice_from line (width + 1))
                (out @ [indentation @ slice_to line (width + 1) @ ''$'' @ newline])
            else Some (out @ [indentation @ line @ newline]))
      else Some (out @ [indentation @ line @ newline]))"

declare line_loop.simps [code]

definition Writer_line :: "int option \<Rightarrow> bool \<Rightarrow> string \<Rightarrow> nat \<Rightarrow> string list option" where
  "Writer_line columns strict line indent =
     (let indentation = concat (replicate indent INDENT)
      in case columns of
           None \<Rightarrow> Some [indentation @ line @ newline]
         | Some cols \<Rightarrow>
             line_loop cols strict indentation (int (length indentation)) False line [])"

section \<open>The graph compiler (ronin/ninja.py, class NinjaFile)\<close>

subsection \<open>Helpers of the module and of ronin.utils\<close>




definition os_sep :: string where
  "os_sep = ''/''"

definition endswith :: "string \<Rightarrow> string \<Rightarrow> bool" where
  "endswith s p = (length p \<le> length s \<and> drop (length s - length p) s = p)"


text \<open>
  Modelled from the spec: \<^verbatim>\<open>join_path\<close> and \<^verbatim>\<open>change_extension\<close> of \<^verbatim>\<open>ronin.utils.paths\<close>
  are not among the sources. The spec says that an output is ``rooted under'' the
  output directory, so \<open>join_path base p\<close> is \<open>p\<close> behind \<open>base\<close> and one separator; and
  that the extension is ``rewritten'' to the executor's output extension when there is
  one, so \<open>change_extension\<close> replaces what follows the last dot of the file name, or
  appends the extension to a file name without a dot.
\<close>

definition join_path :: "string \<Rightarrow> string \<Rightarrow> string" where
  "join_path base p = (if endswith base os_sep then base @ p else base @ os_sep @ p)"

definition file_stem :: "string \<Rightarrow> string" where
  "file_stem path =
     (let name = rev (takeWhile (\<lambda>ch. ch \<noteq> CHR ''/'') (rev path))
      in if CHR ''.'' \<in> set name
         then rev (tl (dropWhile (\<lambda>ch. ch \<noteq> CHR ''.'') (rev path)))
         else path)"

definition change_extension :: "string \<Rightarrow> string option \<Rightarrow> string" where
  "change_extension path new_extension =
     (case new_extension of
        None \<Rightarrow> path
      | Some ext \<Rightarrow> file_stem path @ ''.'' @ ext)"

subsection \<open>Phases, projects and the state of a generation\<close>

text \<open>
  \<^verbatim>\<open>ronin/phases.py\<close> and the executors are not among the sources; a phase and its
  executor are records of the attributes that \<^verbatim>\<open>NinjaFile\<close> reads, already passed
  through \<^verbatim>\<open>stringify\<close>. \<open>command_as_str\<close> takes the escaping function, as
  \<^verbatim>\<open>phase.command_as_str(_escape)\<close> does. An entry of \<^verbatim>\<open>inputs_from\<close> is a \<^verbatim>\<open>Phase\<close>
  object or a name.

  Phases are objects: the code compares them by identity and appends to their input
  lists in place. \<open>heap\<close> maps the address of every phase to its current record, and a
  project maps phase names to addresses, in the iteration order of its dictionary.
\<close>

datatype phase_ref = ByPhase nat | ByName string

record executor =
  output_type :: string
  output_prefix :: "string option"
  output_extension :: "string option"
  deps_file :: "string option"
  deps_type :: "string option"

record phase =
  inputs :: "string list"
  inputs_from :: "phase_ref list"
  phase_output :: "string option"
  description :: "string option"
  command_as_str :: "(string \<Rightarrow> string) \<Rightarrow> string"
  executor :: executor

record project =
  project_str :: string
  project_file_name :: "string option"
  phases :: "(string \<times> nat) list"


record gen_state =
  heap :: "nat \<Rightarrow> phase"
  all_phase_outputs :: "(string \<times> string list) list"
  results :: "(nat \<times> string list) list option"
  io :: "(string \<times> string \<times> nat) list"



subsection \<open>Writing one rule\<close>

text \<open>
  \<open>w_line\<close> records a call of \<^verbatim>\<open>w.line\<close>; \<open>append_output\<close> is
  \<^verbatim>\<open>phase_outputs.append(output)\<close> followed by \<^verbatim>\<open>phase_results.append(output)\<close> when
  there are results (\<^verbatim>\<open>phase_outputs\<close> is the list stored in \<^verbatim>\<open>all_phase_outputs\<close>, and
  \<^verbatim>\<open>phase_results\<close> the one stored in the results under the phase).
\<close>

definition w_line :: "string \<Rightarrow> string \<Rightarrow> nat \<Rightarrow> gen_state \<Rightarrow> gen_state" where
  "w_line phase_name text indent st = st\<lparr>io := io st @ [(phase_name, text, indent)]\<rparr>"






text \<open>The output that the fan-out mode derives from one input (lines 239 to 243).\<close>

definition fan_out_output :: "string \<Rightarrow> string \<Rightarrow> string option \<Rightarrow> string \<Rightarrow> string" where
  "fan_out_output input_base output_base ext input =
     join_path output_base
       (change_extension
          (if startswith input input_base then drop (length input_base) input else input)
          ext)"


text \<open>
  \<open>emit_rule\<close> is \<^verbatim>\<open>_write_rule\<close> from line 152 on, after the names of the input
  sources are known. It registers the phase in \<^verbatim>\<open>all_phase_outputs\<close>, writes the rule
  and its build lines, and records the outputs.
\<close>

definition truthy :: "string option \<Rightarrow> string option" where
  "truthy x = (case x of None \<Rightarrow> None | Some s \<Rightarrow> if s = [] then None else Some s)"





definition input_base_of :: "string \<Rightarrow> string" where
  "input_base_of root = (if endswith root os_sep then root else root @ os_sep)"





subsection \<open>Configuration and the whole file\<close>

text \<open>
  \<^verbatim>\<open>configure_ninja(command, file_name, columns, strict)\<close> assigns its four arguments to
  attributes of the namespace \<^verbatim>\<open>ninja\<close> of the context that \<^verbatim>\<open>current_context(False)\<close>
  returns, the top of the stack itself. An assignment that raises ends the function.
\<close>

fun assign_all :: "Context \<Rightarrow> string \<Rightarrow> (string \<times> val) list \<Rightarrow> (error + unit) \<times> Context" where
  "assign_all c namespace_name [] = (Inr (), c)"
| "assign_all c namespace_name ((k, v) # kvs) =
     (case attribute_write c namespace_name k v of
        (Inl e, c1) \<Rightarrow> (Inl e, c1)
      | (Inr u, c1) \<Rightarrow> assign_all c1 namespace_name kvs)"

definition configure_ninja ::
  "Context list \<Rightarrow> val \<Rightarrow> val \<Rightarrow> val \<Rightarrow> val \<Rightarrow> (error + unit) \<times> Context list" where
  "configure_ninja stack command_arg file_name_arg columns_arg strict_arg =
     (case current_context stack False of
        Inl e \<Rightarrow> (Inl e, stack)
      | Inr ctx \<Rightarrow>
          (case assign_all ctx ''ninja''
                  [(''command'', command_arg), (''file_name'', file_name_arg),
                   (''file_columns'', columns_arg), (''file_strict'', strict_arg)] of
             (r, ctx1) \<Rightarrow> (r, butlast stack @ [ctx1])))"

text \<open>
  \<^verbatim>\<open>NinjaFile.__init__(project, command, file_name, columns, strict)\<close> stores \<^verbatim>\<open>None\<close> in
  the attributes \<^verbatim>\<open>command\<close>, \<^verbatim>\<open>columns\<close> and \<^verbatim>\<open>strict\<close>, whatever the arguments are.
\<close>

record ninja_file =
  nf_project :: project
  nf_command :: val
  nf_file_name :: "string option"
  nf_columns :: val
  nf_strict :: val

definition NinjaFile_init ::
  "project \<Rightarrow> val \<Rightarrow> string option \<Rightarrow> val \<Rightarrow> val \<Rightarrow> ninja_file" where
  "NinjaFile_init proj command_arg file_name_arg columns_arg strict_arg =
     \<lparr>nf_project = proj,
      nf_command = VNone,
      nf_file_name =
        (case truthy file_name_arg of
           Some f \<Rightarrow> Some f
         | None \<Rightarrow> map_option (\<lambda>f. f @ ''.ninja'') (project_file_name proj)),
      nf_columns = VNone,
      nf_strict = VNone\<rparr>"

text \<open>
  Python 2 on the values of the model: the truth value of an object, and the
  comparison \<^verbatim>\<open>v < n\<close> with an integer \<open>n\<close> (a boolean is the integer 0 or 1, and a string
  is greater than every number).
\<close>

fun py_bool :: "val \<Rightarrow> bool" where
  "py_bool VNone = False"
| "py_bool (VBool b) = b"
| "py_bool (VInt i) = (i \<noteq> 0)"
| "py_bool (VStr s) = (s \<noteq> [])"

fun py_less_int :: "val \<Rightarrow> int \<Rightarrow> bool" where
  "py_less_int VNone n = True"
| "py_less_int (VBool b) n = ((if b then 1 else 0) < n)"
| "py_less_int (VInt i) n = (i < n)"
| "py_less_int (VStr s) n = False"

definition DEFAULT_COLUMNS :: int where
  "DEFAULT_COLUMNS = 100"

definition MINIMUM_COLUMNS_STRICT :: int where
  "MINIMUM_COLUMNS_STRICT = 30"

text \<open>
  The first block of \<^verbatim>\<open>NinjaFile.write\<close> (lines 129 to 133): the column budget and the
  strict flag that the writer is made with. The context is the immutable child that
  \<^verbatim>\<open>current_context()\<close> makes of the top of the stack. The two reads register the
  namespace \<^verbatim>\<open>ninja\<close> along the chain where it is missing and store no value; the
  model does not keep that.
\<close>

definition write_settings :: "Context list \<Rightarrow> ninja_file \<Rightarrow> error + (val \<times> val)" where
  "write_settings stack nf =
     (case current_context stack True of
        Inl e \<Rightarrow> Inl e
      | Inr ctx \<Rightarrow>
          (case Context_fallback ctx (nf_columns nf) ''ninja.file_columns'' (VInt DEFAULT_COLUMNS) of
             (Inl e, ctx1) \<Rightarrow> Inl e
           | (Inr columns, ctx1) \<Rightarrow>
               (case Context_fallback ctx1 (nf_strict nf) ''ninja.file_columns_strict''
                       (VBool False) of
                  (Inl e, ctx2) \<Rightarrow> Inl e
                | (Inr strict, ctx2) \<Rightarrow>
                    Inr (if py_bool strict \<and> columns \<noteq> VNone
                            \<and> py_less_int columns MINIMUM_COLUMNS_STRICT
                         then VInt MINIMUM_COLUMNS_STRICT else columns,
                         strict))))"





section \<open>Notions used to state the properties\<close>

subsection \<open>Contexts\<close>

text \<open>
  \<open>local_value c n key\<close> is the value that the context \<open>c\<close> itself stores for
  \<^verbatim>\<open>n.key\<close>, and \<open>nearest c n key\<close> the value of the nearest context of the chain
  that stores one: \<open>c\<close> itself, else its parent, else the parent's parent.

  \<open>intact c\<close> says that the namespaces of the chain are as \<^verbatim>\<open>_Namespace.__init__\<close> made
  them: registered under their own \<^verbatim>\<open>_name\<close>, with their \<^verbatim>\<open>_context\<close> still the owning
  context. \<open>owned c n\<close> says the latter of the namespace \<open>n\<close> of \<open>c\<close> alone.
\<close>

definition local_value :: "Context \<Rightarrow> string \<Rightarrow> string \<Rightarrow> val option" where
  "local_value c namespace_name key =
     (case map_of (namespaces c) namespace_name of
        None \<Rightarrow> None
      | Some ns \<Rightarrow> map_of (ns_dict ns) key)"

fun nearest :: "Context \<Rightarrow> string \<Rightarrow> string \<Rightarrow> val option" where
  "nearest (Context p imm nss) namespace_name key =
     (case local_value (Context p imm nss) namespace_name key of
        Some v \<Rightarrow> Some v
      | None \<Rightarrow> (case p of None \<Rightarrow> None | Some q \<Rightarrow> nearest q namespace_name key))"

fun intact :: "Context \<Rightarrow> bool" where
  "intact (Context p imm nss) =
     (list_all (\<lambda>(n, ns). ns_name ns = VStr n \<and> ns_context ns = None) nss \<and>
      (case p of None \<Rightarrow> True | Some q \<Rightarrow> intact q))"

definition owned :: "Context \<Rightarrow> string \<Rightarrow> bool" where
  "owned c n = (case map_of (namespaces c) n of None \<Rightarrow> True | Some ns \<Rightarrow> ns_context ns = None)"

text \<open>
  A chain of two contexts: the root sets \<^verbatim>\<open>ninja.file_columns\<close> and \<^verbatim>\<open>ninja.command\<close>, its
  immutable child sets \<^verbatim>\<open>ninja.command\<close> again.
\<close>

definition example_root :: Context where
  "example_root =
     Context None False
       [(''ninja'', \<lparr>ns_name = VStr ''ninja'', ns_context = None,
                     ns_dict = [(''file_columns'', VInt 80), (''command'', VStr ''ninja'')]\<rparr>)]"

definition example_child :: Context where
  "example_child =
     Context (Some example_root) True
       [(''ninja'', \<lparr>ns_name = VStr ''ninja'', ns_context = None,
                     ns_dict = [(''command'', VStr ''samu'')]\<rparr>)]"




subsection \<open>Projects\<close>

text \<open>
  The project of the spec's end-to-end example: \<^verbatim>\<open>compile\<close> at address 0 turns two C
  files into objects, \<^verbatim>\<open>link\<close> at address 1 takes them from \<^verbatim>\<open>compile\<close> and makes
  \<^verbatim>\<open>app\<close>. The dictionary of the project happens to list \<^verbatim>\<open>link\<close> first.
\<close>

definition example_compile :: phase where
  "example_compile =
     \<lparr>inputs = [''src/a.c'', ''src/b.c''], inputs_from = [], phase_output = None,
      description = None,
      command_as_str = (\<lambda>esc. ''gcc -c $in -o $out '' @ esc ''-DCURRENCY=$''),
      executor = \<lparr>output_type = ''object'', output_prefix = None,
                   output_extension = Some ''o'', deps_file = None, deps_type = None\<rparr>\<rparr>"

definition example_link :: phase where
  "example_link =
     \<lparr>inputs = [], inputs_from = [ByPhase 0], phase_output = Some ''app'',
      description = None,
      command_as_str = (\<lambda>esc. ''gcc $in -o $out''),
      executor = \<lparr>output_type = ''binary'', output_prefix = None,
                   output_extension = None, deps_file = None, deps_type = None\<rparr>\<rparr>"

definition example_heap :: "nat \<Rightarrow> phase" where
  "example_heap a = (if a = 0 then example_compile else example_link)"

definition example_project :: project where
  "example_project =
     \<lparr>project_str = ''hello'', project_file_name = None,
      phases = [(''link'', 1), (''compile'', 0)]\<rparr>"


definition example_start :: gen_state where
  "example_start = \<lparr>heap = example_heap, all_phase_outputs = [], results = None, io = []\<rparr>"

subsection \<open>Reading and configuring\<close>

text \<open>
  \<open>register c n\<close> is the context \<open>c\<close> after \<^verbatim>\<open>Context.__getattr__\<close> has been asked for the
  namespace \<open>n\<close>: the namespace is there, empty when it was not there before.
  \<open>setting c key dflt\<close> is what the chain of \<open>c\<close> answers for the key \<open>key\<close> of the namespace
  \<^verbatim>\<open>ninja\<close>, with \<open>dflt\<close> for a key that no context of the chain defines.
\<close>

definition register :: "Context \<Rightarrow> string \<Rightarrow> Context" where
  "register c n =
     (case map_of (namespaces c) n of
        Some ns \<Rightarrow> c
      | None \<Rightarrow> Context (parent c) (immutable c) (namespaces c @ [(n, Namespace_init n)]))"

definition setting :: "Context \<Rightarrow> string \<Rightarrow> val \<Rightarrow> val" where
  "setting c key dflt = (case nearest c ''ninja'' key of Some v \<Rightarrow> v | None \<Rightarrow> dflt)"

subsection \<open>Order of the rule blocks\<close>








subsection \<open>Notions of the proofs about the generation\<close>



definition tagged :: "string \<Rightarrow> gen_state \<Rightarrow> gen_state \<Rightarrow> bool" where
  "tagged n st st' = (\<exists>evs. io st' = io st @ evs \<and> (\<forall>ev \<in> set evs. fst ev = n))"







section \<open>Properties of the configuration context\<close>

subsection \<open>Reading through the chain\<close>

lemma intact_registered:
  "intact c \<Longrightarrow> map_of (namespaces c) n = Some ns \<Longrightarrow>
   ns_name ns = VStr n \<and> ns_context ns = None"
  by (cases c) (auto simp: list_all_iff dest!: map_of_SomeD)

lemma Context_getattr_registers:
  "n \<notin> set Context_LOCAL \<Longrightarrow> \<exists>ns c1. Context_getattr c n = Inr (ns, c1)"
  by (cases "map_of (namespaces c) n") (simp_all add: Context_getattr_def)

lemma attribute_read_nearest:
  "intact c \<Longrightarrow> n \<notin> set Context_LOCAL \<Longrightarrow> key \<notin> set Namespace_LOCAL \<Longrightarrow>
   fst (attribute_read c n key) =
     (case nearest c n key of Some v \<Rightarrow> Inr v | None \<Rightarrow> Inl (NotInContextException key))"
proof (induction c rule: chain_length.induct)
  case (1 imm nss)
  show ?case
  proof (cases "map_of nss n")
    case None
    then show ?thesis
      using "1.prems"
      by (simp add: attribute_read_def Context_getattr_def local_value_def Namespace_init_def)
  next
    case (Some ns)
    then have "ns_name ns = VStr n \<and> ns_context ns = None"
      using intact_registered [OF "1.prems"(1), of n ns] by simp
    then show ?thesis
      using Some "1.prems"
      by (simp add: attribute_read_def Context_getattr_def local_value_def split: option.splits)
  qed
next
  case (2 p imm nss)
  have ip: "intact p" using "2.prems"(1) by simp
  have IH: "fst (attribute_read p n key) =
     (case nearest p n key of Some v \<Rightarrow> Inr v | None \<Rightarrow> Inl (NotInContextException key))"
    using "2.IH" ip "2.prems" by simp
  have deleg: "\<And>c1 ns. parent c1 = Some p \<Longrightarrow> ns_name ns = VStr n \<Longrightarrow> ns_context ns = None \<Longrightarrow>
      fst (Namespace_getattr c1 ns key) = fst (attribute_read p n key)"
    using "2.prems"(3)
    by (auto simp: attribute_read_def split: sum.splits prod.splits)
  show ?case
  proof (cases "map_of nss n")
    case None
    then show ?thesis
      using "2.prems"(2) IH
        deleg [of "Context (Some p) imm (nss @ [(n, Namespace_init n)])" "Namespace_init n"]
      by (simp add: attribute_read_def Context_getattr_def local_value_def Namespace_init_def)
  next
    case (Some ns)
    then have "ns_name ns = VStr n \<and> ns_context ns = None"
      using intact_registered [OF "2.prems"(1), of n ns] by simp
    then show ?thesis
      using Some "2.prems"(2) IH deleg [of "Context (Some p) imm nss" ns]
      by (simp add: attribute_read_def Context_getattr_def local_value_def split: option.splits)
  qed
qed

lemma str_split_dotted:
  assumes a: "CHR ''.'' \<notin> set n" and b: "CHR ''.'' \<notin> set key"
  shows "str_split (CHR ''.'') 2 (n @ ''.'' @ key) = [n, key]"
proof -
  have t: "takeWhile (\<lambda>ch. ch \<noteq> CHR ''.'') (n @ CHR ''.'' # key) = n"
    using a by (induction n) auto
  have d: "dropWhile (\<lambda>ch. ch \<noteq> CHR ''.'') (n @ CHR ''.'' # key) = CHR ''.'' # key"
    using a by (induction n) auto
  have "str_split (CHR ''.'') (Suc (Suc 0)) (n @ CHR ''.'' # key) = [n, key]"
    using b by (simp add: t d)
  then show ?thesis by (simp add: numeral_2_eq_2)
qed




subsection \<open>The defaulted read\<close>

lemma Context_get_without_dot:
  "CHR ''.'' \<notin> set name \<Longrightarrow> Context_get c name d = (Inr d, c)"
  by (simp add: Context_get_def)

text \<open>
  C5. A name with two dots is a dotted name, and \<^verbatim>\<open>Context.get\<close> does not return the
  default for it: the split has three parts, the unpacking into two names raises
  \<^verbatim>\<open>ValueError\<close>, and no handler catches it. This holds in every context and for every
  default.
\<close>

theorem Context_get_three_parts:
  "Context_get c ''ninja.file.columns'' d =
     (Inl (ValueError ''too many values to unpack''), c)"
  by (simp add: Context_get_def numeral_2_eq_2)

subsection \<open>Writing to an immutable context\<close>

lemma local_value_append_empty:
  "map_of nss n = None \<Longrightarrow>
   local_value (Context p imm (nss @ [(n, Namespace_init n)])) = local_value (Context p imm nss)"
  by (rule ext, rule ext)
     (auto simp: local_value_def Namespace_init_def map_add_def split: option.splits)

lemma current_context_immutable:
  "current_context stack True = Inr c \<Longrightarrow> immutable c \<and> namespaces c = []"
  by (auto simp: current_context_def Context_init_def split: option.splits)

text \<open>
  C6, as the code has it. For every immutable context, every namespace of it that still
  refers to its context and every key other than the two names of \<^verbatim>\<open>_Namespace.LOCAL\<close>,
  the write \<^verbatim>\<open>ctx.n.key = v\<close> fails with \<^verbatim>\<open>ImmutableContextException\<close>; the context
  keeps its parent, its flag and every stored value (a namespace that was not there
  is registered, empty).
\<close>

theorem immutable_write_refused:
  assumes "immutable c" and "n \<notin> set Context_LOCAL" and "key \<notin> set Namespace_LOCAL"
    and "owned c n"
  shows "fst (attribute_write c n key v) = Inl ImmutableContextException
       \<and> local_value (snd (attribute_write c n key v)) = local_value c
       \<and> parent (snd (attribute_write c n key v)) = parent c
       \<and> immutable (snd (attribute_write c n key v))"
proof (cases c)
  case (Context p imm nss)
  show ?thesis
  proof (cases "map_of nss n")
    case None
    then show ?thesis
      using assms Context local_value_append_empty [of nss n p imm]
      by (simp add: attribute_write_def Context_getattr_def Namespace_setattr_def
            Namespace_init_def)
  next
    case (Some ns)
    then show ?thesis
      using assms Context
      by (simp add: attribute_write_def Context_getattr_def Namespace_setattr_def owned_def)
  qed
qed

theorem immutable_write_refused_witness:
  "immutable example_child \<and> ''ninja'' \<notin> set Context_LOCAL
   \<and> ''command'' \<notin> set Namespace_LOCAL \<and> owned example_child ''ninja''
   \<and> fst (attribute_write example_child ''ninja'' ''command'' (VStr ''n2'')) =
       Inl ImmutableContextException
   \<and> local_value (snd (attribute_write example_child ''ninja'' ''command'' (VStr ''n2'')))
        ''ninja'' ''command'' = Some (VStr ''samu'')"
proof -
  have h: "immutable example_child" "''ninja'' \<notin> set Context_LOCAL"
    "''command'' \<notin> set Namespace_LOCAL" "owned example_child ''ninja''"
    by (simp_all add: example_child_def Context_LOCAL_def Namespace_LOCAL_def owned_def)
  have l: "local_value example_child ''ninja'' ''command'' = Some (VStr ''samu'')"
    by (simp add: example_child_def local_value_def)
  show ?thesis
    using h l immutable_write_refused [OF h, of "VStr ''n2''"] by simp
qed

text \<open>
  The claim as stated fails at the key \<^verbatim>\<open>_name\<close>: \<^verbatim>\<open>__setattr__\<close> tests immutability only
  for names outside \<^verbatim>\<open>LOCAL\<close>, so the write to an immutable context goes through.
\<close>

theorem immutable_write_LOCAL_accepted:
  "immutable (Context_init None True)
   \<and> attribute_write (Context_init None True) ''ninja'' ''_name'' (VStr ''x'') =
       (Inr (), Context None True
                  [(''ninja'', \<lparr>ns_name = VStr ''x'', ns_context = None, ns_dict = []\<rparr>)])"
  by (simp add: Context_init_def attribute_write_def Context_getattr_def Context_LOCAL_def
        Namespace_setattr_def Namespace_LOCAL_def Namespace_init_def object_setattr_def)

section \<open>Where the writer's settings come from\<close>

lemma intact_register: "intact c \<Longrightarrow> intact (register c n)"
  by (cases c) (auto simp: register_def Namespace_init_def split: option.splits)

lemma local_value_register: "local_value (register c n) = local_value c"
  by (cases c) (auto simp: register_def local_value_append_empty split: option.splits)

lemma parent_register: "parent (register c n) = parent c"
  by (auto simp: register_def split: option.splits)

lemma immutable_register: "immutable (register c n) = immutable c"
  by (auto simp: register_def split: option.splits)

lemma Context_getattr_register:
  "n \<notin> set Context_LOCAL \<Longrightarrow>
   \<exists>ns. Context_getattr c n = Inr (ns, register c n) \<and>
         map_of (namespaces (register c n)) n = Some ns \<and>
         map_of (ns_dict ns) = local_value c n"
  by (cases "map_of (namespaces c) n")
     (auto simp: Context_getattr_def register_def local_value_def Namespace_init_def fun_eq_iff
        map_add_def)

lemma attribute_read_unfold:
  assumes "intact c" and "n \<notin> set Context_LOCAL" and "key \<notin> set Namespace_LOCAL"
  shows "attribute_read c n key =
     (case local_value c n key of
        Some v \<Rightarrow> (Inr v, register c n)
      | None \<Rightarrow>
          (case parent c of
             None \<Rightarrow> (Inl (NotInContextException key), register c n)
           | Some p \<Rightarrow>
               (case attribute_read p n key of (r, p2) \<Rightarrow> (r, set_parent (register c n) p2))))"
proof -
  obtain ns where g: "Context_getattr c n = Inr (ns, register c n)"
    and m: "map_of (namespaces (register c n)) n = Some ns"
    and d: "map_of (ns_dict ns) = local_value c n"
    using Context_getattr_register [OF assms(2), of c] by blast
  have i: "ns_name ns = VStr n \<and> ns_context ns = None"
    using intact_registered [OF intact_register [OF assms(1)] m] .
  show ?thesis
  proof (cases "local_value c n key")
    case (Some v)
    then show ?thesis using g d by (simp add: attribute_read_def)
  next
    case None
    show ?thesis
    proof (cases "parent c")
      case pn: None
      then show ?thesis
        using None g d i assms(3) by (simp add: attribute_read_def parent_register)
    next
      case (Some p)
      obtain pns where pg: "Context_getattr p n = Inr (pns, register p n)"
        using Context_getattr_register [OF assms(2), of p] by blast
      show ?thesis
        using None Some g d i assms(3) pg
        by (simp add: attribute_read_def parent_register split: prod.splits)
    qed
  qed
qed

lemma read_preserves:
  "intact c \<Longrightarrow> n \<notin> set Context_LOCAL \<Longrightarrow> key \<notin> set Namespace_LOCAL \<Longrightarrow>
   intact (snd (attribute_read c n key)) \<and>
   nearest (snd (attribute_read c n key)) = nearest c \<and>
   immutable (snd (attribute_read c n key)) = immutable c"
proof (induction c rule: chain_length.induct)
  case (1 imm nss)
  let ?c = "Context None imm nss"
  have "snd (attribute_read ?c n key) = register ?c n"
    using attribute_read_unfold [OF "1.prems"] by (simp split: option.splits)
  moreover have "nearest (register ?c n) = nearest ?c"
    using local_value_register [of ?c n]
    by (cases "register ?c n") (auto simp: fun_eq_iff register_def split: option.splits)
  ultimately show ?case
    using intact_register [OF "1.prems"(1), of n] immutable_register [of ?c n] by simp
next
  case (2 p imm nss)
  let ?c = "Context (Some p) imm nss"
  have ip: "intact p" using "2.prems"(1) by simp
  note IH = "2.IH" [OF ip "2.prems"(2,3)]
  have "\<exists>nss'. register ?c n = Context (Some p) imm nss'"
    by (cases "map_of nss n") (simp_all add: register_def)
  then obtain nss' where r: "register ?c n = Context (Some p) imm nss'" by blast
  have ir: "intact (register ?c n)" by (rule intact_register [OF "2.prems"(1)])
  have lv: "local_value (register ?c n) = local_value ?c" by (rule local_value_register)
  show ?case
  proof (cases "local_value ?c n key")
    case (Some v)
    then have "snd (attribute_read ?c n key) = register ?c n"
      using attribute_read_unfold [OF "2.prems"] by simp
    moreover have "nearest (register ?c n) = nearest ?c"
      using lv r by (auto simp: fun_eq_iff split: option.splits)
    ultimately show ?thesis using ir r by simp
  next
    case None
    then have s: "snd (attribute_read ?c n key) =
        Context (Some (snd (attribute_read p n key))) imm nss'"
      using attribute_read_unfold [OF "2.prems"] r
      by (simp add: set_parent_def split: prod.splits)
    have "local_value (Context (Some (snd (attribute_read p n key))) imm nss') = local_value ?c"
      using lv r by (simp add: local_value_def fun_eq_iff)
    then have "nearest (Context (Some (snd (attribute_read p n key))) imm nss') = nearest ?c"
      using IH by (auto simp: fun_eq_iff split: option.splits)
    moreover have "intact (Context (Some (snd (attribute_read p n key))) imm nss')"
      using ir r IH by simp
    ultimately show ?thesis using s by simp
  qed
qed


lemma Context_get_read:
  assumes "n \<notin> set Context_LOCAL" and b: "CHR ''.'' \<notin> set n" "CHR ''.'' \<notin> set key"
  shows "Context_get c (n @ ''.'' @ key) d =
     (case attribute_read c n key of
        (Inr v, c2) \<Rightarrow> (Inr v, c2)
      | (Inl e, c2) \<Rightarrow>
          (case e of NotInContextException k \<Rightarrow> (Inr d, c2) | _ \<Rightarrow> (Inl e, c2)))"
proof -
  obtain ns c1 where g: "Context_getattr c n = Inr (ns, c1)"
    using Context_getattr_registers [OF assms(1)] by blast
  show ?thesis
    using b g str_split_dotted [OF b]
    by (simp add: Context_get_def attribute_read_def split: sum.splits prod.splits)
qed

lemma Context_get_setting:
  assumes "intact c" and "key \<notin> set Namespace_LOCAL" and "CHR ''.'' \<notin> set key"
  shows "fst (Context_get c (''ninja.'' @ key) d) = Inr (setting c key d)
       \<and> intact (snd (Context_get c (''ninja.'' @ key) d))
       \<and> nearest (snd (Context_get c (''ninja.'' @ key) d)) = nearest c"
proof -
  have n: "''ninja'' \<notin> set Context_LOCAL" "CHR ''.'' \<notin> set ''ninja''"
    by (simp_all add: Context_LOCAL_def)
  have r: "fst (attribute_read c ''ninja'' key) =
     (case nearest c ''ninja'' key of
        Some v \<Rightarrow> Inr v
      | None \<Rightarrow> Inl (NotInContextException key))"
    using assms n by (intro attribute_read_nearest) simp_all
  have g: "Context_get c (''ninja'' @ ''.'' @ key) d =
     (case attribute_read c ''ninja'' key of
        (Inr v, c2) \<Rightarrow> (Inr v, c2)
      | (Inl e, c2) \<Rightarrow>
          (case e of NotInContextException k \<Rightarrow> (Inr d, c2) | _ \<Rightarrow> (Inl e, c2)))"
    using n assms(3) by (intro Context_get_read) simp_all
  have s: "snd (Context_get c (''ninja'' @ ''.'' @ key) d) = snd (attribute_read c ''ninja'' key)"
    unfolding g by (simp split: prod.splits sum.splits error.splits)
  have f: "fst (Context_get c (''ninja'' @ ''.'' @ key) d) = Inr (setting c key d)"
    unfolding g using r
    by (cases "attribute_read c ''ninja'' key")
       (auto simp: setting_def split: option.splits sum.splits error.splits)
  show ?thesis
    using f s read_preserves [OF assms(1) n(1) assms(2)] by simp
qed

lemma nearest_child_empty: "nearest (Context (Some c) imm []) = nearest c"
  by (auto simp: fun_eq_iff local_value_def)

lemma write_settings_fresh:
  assumes "stack \<noteq> []" and "intact (last stack)"
    and "nf_columns nf = VNone" and "nf_strict nf = VNone"
  shows "write_settings stack nf =
     Inr (if py_bool (setting (last stack) ''file_columns_strict'' (VBool False))
             \<and> setting (last stack) ''file_columns'' (VInt DEFAULT_COLUMNS) \<noteq> VNone
             \<and> py_less_int (setting (last stack) ''file_columns'' (VInt DEFAULT_COLUMNS))
                  MINIMUM_COLUMNS_STRICT
          then VInt MINIMUM_COLUMNS_STRICT
          else setting (last stack) ''file_columns'' (VInt DEFAULT_COLUMNS),
          setting (last stack) ''file_columns_strict'' (VBool False))"
proof -
  let ?ctx = "Context (Some (last stack)) True []"
  have cc: "current_context stack True = Inr ?ctx"
    using assms(1) by (simp add: current_context_def peek_def Context_init_def)
  have i: "intact ?ctx" using assms(2) by simp
  have k: "''file_columns'' \<notin> set Namespace_LOCAL" "CHR ''.'' \<notin> set ''file_columns''"
    "''file_columns_strict'' \<notin> set Namespace_LOCAL" "CHR ''.'' \<notin> set ''file_columns_strict''"
    by (simp_all add: Namespace_LOCAL_def)
  obtain r1 c1 where g1: "Context_get ?ctx ''ninja.file_columns'' (VInt DEFAULT_COLUMNS) = (r1, c1)"
    by (cases "Context_get ?ctx ''ninja.file_columns'' (VInt DEFAULT_COLUMNS)")
  have p1: "r1 = Inr (setting ?ctx ''file_columns'' (VInt DEFAULT_COLUMNS))" "intact c1"
    "nearest c1 = nearest ?ctx"
    using Context_get_setting [OF i k(1,2), of "VInt DEFAULT_COLUMNS"] g1 by simp_all
  obtain r2 c2 where g2: "Context_get c1 ''ninja.file_columns_strict'' (VBool False) = (r2, c2)"
    by (cases "Context_get c1 ''ninja.file_columns_strict'' (VBool False)")
  have p2: "r2 = Inr (setting c1 ''file_columns_strict'' (VBool False))"
    using Context_get_setting [OF p1(2) k(3,4), of "VBool False"] g2 by simp
  have e: "setting c1 = setting (last stack)" "setting ?ctx = setting (last stack)"
    using p1(3) by (simp_all add: setting_def fun_eq_iff nearest_child_empty)
  show ?thesis
    using cc g1 g2 p1(1) p2 e assms(3,4)
    by (simp add: write_settings_def Context_fallback_def)
qed


lemma list_all_update:
  "list_all P xs \<Longrightarrow> P (k, v) \<Longrightarrow> list_all P (AList.update k v xs)"
  by (induction xs) auto

lemma attribute_write_mutable:
  assumes "intact c" and "\<not> immutable c"
    and "n \<notin> set Context_LOCAL" and "key \<notin> set Namespace_LOCAL"
  shows "fst (attribute_write c n key v) = Inr ()
       \<and> intact (snd (attribute_write c n key v))
       \<and> \<not> immutable (snd (attribute_write c n key v))
       \<and> nearest (snd (attribute_write c n key v)) =
           (\<lambda>n' k'. if n' = n \<and> k' = key then Some v else nearest c n' k')"
proof -
  obtain ns where g: "Context_getattr c n = Inr (ns, register c n)"
    and m: "map_of (namespaces (register c n)) n = Some ns"
    and d: "map_of (ns_dict ns) = local_value c n"
    using Context_getattr_register [OF assms(3), of c] by blast
  have i: "ns_name ns = VStr n \<and> ns_context ns = None"
    using intact_registered [OF intact_register [OF assms(1)] m] .
  obtain p imm nss where r: "register c n = Context p imm nss"
    by (cases "register c n")
  have pr: "p = parent c" "imm = immutable c"
    using r parent_register [of c n] immutable_register [of c n] by simp_all
  let ?ns' = "ns\<lparr>ns_dict := AList.update key v (ns_dict ns)\<rparr>"
  let ?c' = "Context p imm (AList.update n ?ns' nss)"
  have k: "key \<noteq> ''_name''" "key \<noteq> ''_context''"
    using assms(4) by (auto simp: Namespace_LOCAL_def)
  have w: "attribute_write c n key v = (Inr (), ?c')"
    using g r pr assms(2,4) k
    by (simp add: attribute_write_def Namespace_setattr_def object_setattr_def)
  have ir: "intact (Context p imm nss)"
    using intact_register [OF assms(1), of n] r by simp
  have ic: "intact ?c'"
    using ir i by (auto intro: list_all_update)
  have lv: "local_value ?c' = (\<lambda>n' k'. if n' = n \<and> k' = key then Some v else local_value c n' k')"
  proof (intro ext)
    fix n' k'
    have "local_value (Context p imm nss) n' k' = local_value c n' k'"
      using local_value_register [of c n] r by simp
    then show "local_value ?c' n' k' =
        (if n' = n \<and> k' = key then Some v else local_value c n' k')"
      using m r d
      by (auto simp: local_value_def update_conv' fun_eq_iff split: option.splits)
  qed
  have nr: "nearest ?c' = (\<lambda>n' k'. if n' = n \<and> k' = key then Some v else nearest c n' k')"
  proof (intro ext)
    fix n' k'
    show "nearest ?c' n' k' = (if n' = n \<and> k' = key then Some v else nearest c n' k')"
      using lv pr by (cases c) (auto simp: fun_eq_iff split: option.splits)
  qed
  show ?thesis
    using w ic nr pr assms(2) by simp
qed

lemma attribute_write_immutable:
  assumes "intact c" and "immutable c"
    and "n \<notin> set Context_LOCAL" and "key \<notin> set Namespace_LOCAL"
  shows "attribute_write c n key v = (Inl ImmutableContextException, register c n)"
proof -
  obtain ns where g: "Context_getattr c n = Inr (ns, register c n)"
    and m: "map_of (namespaces (register c n)) n = Some ns"
    using Context_getattr_register [OF assms(3), of c] by blast
  have i: "ns_name ns = VStr n \<and> ns_context ns = None"
    using intact_registered [OF intact_register [OF assms(1)] m] .
  show ?thesis
    using g i assms(2,4) immutable_register [of c n]
    by (simp add: attribute_write_def Namespace_setattr_def)
qed

lemma assign_all_mutable:
  "intact c \<Longrightarrow> \<not> immutable c \<Longrightarrow> n \<notin> set Context_LOCAL \<Longrightarrow>
   list_all (\<lambda>(k, v). k \<notin> set Namespace_LOCAL) kvs \<Longrightarrow>
   fst (assign_all c n kvs) = Inr ()
   \<and> intact (snd (assign_all c n kvs))
   \<and> nearest (snd (assign_all c n kvs)) =
       (\<lambda>n' k'. if n' = n then (case map_of (rev kvs) k' of
                                  Some v \<Rightarrow> Some v
                                | None \<Rightarrow> nearest c n' k')
                else nearest c n' k')"
proof (induction kvs arbitrary: c)
  case Nil
  then show ?case by (simp add: fun_eq_iff)
next
  case (Cons kv kvs)
  obtain k v where kv: "kv = (k, v)" by (cases kv)
  have k: "k \<notin> set Namespace_LOCAL" and rest: "list_all (\<lambda>(k, v). k \<notin> set Namespace_LOCAL) kvs"
    using Cons.prems(4) kv by simp_all
  obtain c1 where w: "attribute_write c n k v = (Inr (), c1)"
    using attribute_write_mutable [OF Cons.prems(1,2,3) k, of v]
    by (cases "attribute_write c n k v") auto
  have c1: "intact c1" "\<not> immutable c1"
    "nearest c1 = (\<lambda>n' k'. if n' = n \<and> k' = k then Some v else nearest c n' k')"
    using attribute_write_mutable [OF Cons.prems(1,2,3) k, of v] w by simp_all
  note IH = Cons.IH [OF c1(1,2) Cons.prems(3) rest]
  have a: "assign_all c n (kv # kvs) = assign_all c1 n kvs"
    using w kv by simp
  show ?case
    unfolding a using IH c1(3) kv
    by (auto simp: fun_eq_iff map_add_def split: option.splits)
qed

lemma configure_ninja_mutable:
  assumes "stack \<noteq> []" and "intact (last stack)" and "\<not> immutable (last stack)"
  shows "\<exists>c'. configure_ninja stack command_arg file_name_arg columns_arg strict_arg =
                (Inr (), butlast stack @ [c'])
            \<and> intact c'
            \<and> setting c' ''file_columns'' d = columns_arg
            \<and> nearest c' ''ninja'' ''file_strict'' = Some strict_arg
            \<and> setting c' ''file_columns_strict'' d' = setting (last stack) ''file_columns_strict'' d'"
proof -
  let ?kvs = "[(''command'', command_arg), (''file_name'', file_name_arg),
               (''file_columns'', columns_arg), (''file_strict'', strict_arg)]"
  have cc: "current_context stack False = Inr (last stack)"
    using assms(1) by (simp add: current_context_def peek_def)
  have n: "''ninja'' \<notin> set Context_LOCAL" by (simp add: Context_LOCAL_def)
  have l: "list_all (\<lambda>(k, v). k \<notin> set Namespace_LOCAL) ?kvs"
    by (simp add: Namespace_LOCAL_def)
  note a = assign_all_mutable [OF assms(2,3) n l]
  obtain r c' where r: "assign_all (last stack) ''ninja'' ?kvs = (r, c')"
    by (cases "assign_all (last stack) ''ninja'' ?kvs")
  have "r = Inr ()" "intact c'" using a r by simp_all
  moreover have "nearest c' ''ninja'' ''file_columns'' = Some columns_arg"
    "nearest c' ''ninja'' ''file_strict'' = Some strict_arg"
    "nearest c' ''ninja'' ''file_columns_strict'' = nearest (last stack) ''ninja'' ''file_columns_strict''"
    using a r by simp_all
  ultimately show ?thesis
    using cc r by (auto simp: configure_ninja_def setting_def)
qed

lemma configure_ninja_immutable:
  assumes "stack \<noteq> []" and "intact (last stack)" and "immutable (last stack)"
  shows "configure_ninja stack command_arg file_name_arg columns_arg strict_arg =
           (Inl ImmutableContextException, butlast stack @ [register (last stack) ''ninja''])"
proof -
  have cc: "current_context stack False = Inr (last stack)"
    using assms(1) by (simp add: current_context_def peek_def)
  have w: "attribute_write (last stack) ''ninja'' ''command'' command_arg =
      (Inl ImmutableContextException, register (last stack) ''ninja'')"
    using assms(2,3) by (intro attribute_write_immutable)
      (simp_all add: Context_LOCAL_def Namespace_LOCAL_def)
  show ?thesis
    using cc w by (simp add: configure_ninja_def)
qed

text \<open>
  C10. \<^verbatim>\<open>NinjaFile.__init__\<close> stores \<^verbatim>\<open>None\<close> for \<^verbatim>\<open>command\<close>, \<^verbatim>\<open>columns\<close> and \<^verbatim>\<open>strict\<close>
  whatever its arguments are, so the settings that \<^verbatim>\<open>write\<close> makes its writer with are
  what the context chain answers for \<^verbatim>\<open>ninja.file_columns\<close> (100 when no context defines
  it) and \<^verbatim>\<open>ninja.file_columns_strict\<close> (\<^verbatim>\<open>False\<close> when no context defines it), with the
  columns raised to 30 in strict mode. \<^verbatim>\<open>configure_ninja\<close> succeeds or fails alike for
  any two values of its \<^verbatim>\<open>strict\<close> argument and leaves the same settings for \<^verbatim>\<open>write\<close>:
  on a mutable context, the columns it was given and the strict flag that the chain
  had before, while the \<^verbatim>\<open>strict\<close> argument is what the context then answers for
  \<^verbatim>\<open>ninja.file_strict\<close>.
\<close>

theorem strict_argument_ignored:
  assumes "stack \<noteq> []" and "intact (last stack)"
  shows "nf_command (NinjaFile_init proj a f b c) = VNone
       \<and> nf_columns (NinjaFile_init proj a f b c) = VNone
       \<and> nf_strict (NinjaFile_init proj a f b c) = VNone
       \<and> write_settings stack (NinjaFile_init proj a f b c) =
           Inr (if py_bool (setting (last stack) ''file_columns_strict'' (VBool False))
                   \<and> setting (last stack) ''file_columns'' (VInt DEFAULT_COLUMNS) \<noteq> VNone
                   \<and> py_less_int (setting (last stack) ''file_columns'' (VInt DEFAULT_COLUMNS))
                        MINIMUM_COLUMNS_STRICT
                then VInt MINIMUM_COLUMNS_STRICT
                else setting (last stack) ''file_columns'' (VInt DEFAULT_COLUMNS),
                setting (last stack) ''file_columns_strict'' (VBool False))
       \<and> fst (configure_ninja stack cmd fn cols s) = fst (configure_ninja stack cmd fn cols s')
       \<and> write_settings (snd (configure_ninja stack cmd fn cols s))
            (NinjaFile_init proj a f b c) =
           write_settings (snd (configure_ninja stack cmd fn cols s'))
            (NinjaFile_init proj a f b c)
       \<and> (\<not> immutable (last stack) \<longrightarrow>
            write_settings (snd (configure_ninja stack cmd fn cols s))
              (NinjaFile_init proj a f b c) =
            Inr (if py_bool (setting (last stack) ''file_columns_strict'' (VBool False))
                    \<and> cols \<noteq> VNone \<and> py_less_int cols MINIMUM_COLUMNS_STRICT
                 then VInt MINIMUM_COLUMNS_STRICT else cols,
                 setting (last stack) ''file_columns_strict'' (VBool False))
            \<and> nearest (last (snd (configure_ninja stack cmd fn cols s))) ''ninja'' ''file_strict'' =
                Some s)"
proof -
  let ?nf = "NinjaFile_init proj a f b c"
  have nf: "nf_command ?nf = VNone" "nf_columns ?nf = VNone" "nf_strict ?nf = VNone"
    by (simp_all add: NinjaFile_init_def)
  have direct: "write_settings stack ?nf =
      Inr (if py_bool (setting (last stack) ''file_columns_strict'' (VBool False))
              \<and> setting (last stack) ''file_columns'' (VInt DEFAULT_COLUMNS) \<noteq> VNone
              \<and> py_less_int (setting (last stack) ''file_columns'' (VInt DEFAULT_COLUMNS))
                   MINIMUM_COLUMNS_STRICT
           then VInt MINIMUM_COLUMNS_STRICT
           else setting (last stack) ''file_columns'' (VInt DEFAULT_COLUMNS),
           setting (last stack) ''file_columns_strict'' (VBool False))"
    using assms nf(2,3) by (rule write_settings_fresh)
  have after: "write_settings (snd (configure_ninja stack cmd fn cols x)) ?nf =
      Inr (if py_bool (setting (last stack) ''file_columns_strict'' (VBool False))
              \<and> cols \<noteq> VNone \<and> py_less_int cols MINIMUM_COLUMNS_STRICT
           then VInt MINIMUM_COLUMNS_STRICT else cols,
           setting (last stack) ''file_columns_strict'' (VBool False))
      \<and> fst (configure_ninja stack cmd fn cols x) = Inr ()
      \<and> nearest (last (snd (configure_ninja stack cmd fn cols x))) ''ninja'' ''file_strict'' =
          Some x"
    if m: "\<not> immutable (last stack)" for x
  proof -
    obtain c' where c: "configure_ninja stack cmd fn cols x = (Inr (), butlast stack @ [c'])"
      "intact c'" "setting c' ''file_columns'' (VInt DEFAULT_COLUMNS) = cols"
      "nearest c' ''ninja'' ''file_strict'' = Some x"
      "setting c' ''file_columns_strict'' (VBool False) =
         setting (last stack) ''file_columns_strict'' (VBool False)"
      using configure_ninja_mutable [OF assms m, of cmd fn cols x "VInt DEFAULT_COLUMNS" "VBool False"]
      by blast
    have "write_settings (butlast stack @ [c']) ?nf =
      Inr (if py_bool (setting c' ''file_columns_strict'' (VBool False))
              \<and> setting c' ''file_columns'' (VInt DEFAULT_COLUMNS) \<noteq> VNone
              \<and> py_less_int (setting c' ''file_columns'' (VInt DEFAULT_COLUMNS))
                   MINIMUM_COLUMNS_STRICT
           then VInt MINIMUM_COLUMNS_STRICT
           else setting c' ''file_columns'' (VInt DEFAULT_COLUMNS),
           setting c' ''file_columns_strict'' (VBool False))"
      using write_settings_fresh [of "butlast stack @ [c']" ?nf] c(2) nf(2,3) by simp
    then show ?thesis
      using c by simp
  qed
  have same: "fst (configure_ninja stack cmd fn cols s) = fst (configure_ninja stack cmd fn cols s')
      \<and> write_settings (snd (configure_ninja stack cmd fn cols s)) ?nf =
        write_settings (snd (configure_ninja stack cmd fn cols s')) ?nf"
  proof (cases "immutable (last stack)")
    case True
    then show ?thesis
      using configure_ninja_immutable [OF assms True] by simp
  next
    case False
    then show ?thesis
      using after [OF False, of s] after [OF False, of s'] by simp
  qed
  show ?thesis
    using nf direct same after by blast
qed

theorem strict_argument_ignored_witness:
  "[example_root] \<noteq> [] \<and> intact (last [example_root])
   \<and> \<not> immutable (last [example_root])
   \<and> fst (configure_ninja [example_root] (VStr ''ninja'') VNone (VInt 120) (VBool True)) =
       fst (configure_ninja [example_root] (VStr ''ninja'') VNone (VInt 120) (VBool False))
   \<and> write_settings
        (snd (configure_ninja [example_root] (VStr ''ninja'') VNone (VInt 120) (VBool True)))
        (NinjaFile_init example_project (VStr ''samu'') None (VInt 60) (VBool True)) =
       Inr (VInt 120, VBool False)"
proof -
  have h: "[example_root] \<noteq> []" "intact (last [example_root])"
    by (simp_all add: example_root_def)
  have m: "\<not> immutable (last [example_root])"
    by (simp add: example_root_def)
  have s: "setting example_root ''file_columns_strict'' (VBool False) = VBool False"
    by (simp add: setting_def example_root_def local_value_def)
  note t = strict_argument_ignored [OF h, of example_project "VStr ''samu''" None "VInt 60"
        "VBool True" "VStr ''ninja''" VNone "VInt 120" "VBool True" "VBool False"]
  have a: "fst (configure_ninja [example_root] (VStr ''ninja'') VNone (VInt 120) (VBool True)) =
       fst (configure_ninja [example_root] (VStr ''ninja'') VNone (VInt 120) (VBool False))"
    using t by blast
  have "write_settings
        (snd (configure_ninja [example_root] (VStr ''ninja'') VNone (VInt 120) (VBool True)))
        (NinjaFile_init example_project (VStr ''samu'') None (VInt 60) (VBool True)) =
       Inr (if py_bool (setting (last [example_root]) ''file_columns_strict'' (VBool False))
               \<and> VInt 120 \<noteq> VNone \<and> py_less_int (VInt 120) MINIMUM_COLUMNS_STRICT
            then VInt MINIMUM_COLUMNS_STRICT else VInt 120,
            setting (last [example_root]) ''file_columns_strict'' (VBool False))"
    using t m by blast
  then have b: "write_settings
        (snd (configure_ninja [example_root] (VStr ''ninja'') VNone (VInt 120) (VBool True)))
        (NinjaFile_init example_project (VStr ''samu'') None (VInt 60) (VBool True)) =
       Inr (VInt 120, VBool False)"
    by (simp add: s MINIMUM_COLUMNS_STRICT_def)
  show ?thesis
    using h m a b by blast
qed

subsection \<open>Serialization\<close>













section \<open>Properties of the line writer\<close>

text \<open>
  C4. A build line whose second input is the path \<^verbatim>\<open>" bbb...b.c"\<close>, which \<^verbatim>\<open>_pathify\<close>
  writes with an escaped space in front, in 20 columns and non-strict mode: the first
  break leaves a remainder that starts with \<^verbatim>\<open>$\<close> and the escaped space, and
  \<^verbatim>\<open>_is_unescaped\<close> takes that space for an unescaped one, because its loop stops before
  position 0. The writer breaks the line there: the second text written is the
  \<^verbatim>\<open>$\<close> alone, with the continuation marker.
\<close>

theorem Writer_line_breaks_escaped_space:
  "is_unescaped ''$ bbbbbbbbbbbbbbbbbbbbbbbb.c'' 1
   \<and> Writer_line (Some 20) False ''build out: cc a.c $ bbbbbbbbbbbbbbbbbbbbbbbb.c'' 0 =
       Some [''build out: cc a.c $'' @ newline,
             ''  $ $'' @ newline,
             ''  bbbbbbbbbbbbbbbbbbbbbbbb.c'' @ newline]"
  by code_simp

section \<open>Properties of the graph compiler\<close>

subsection \<open>The input list of a phase\<close>







subsection \<open>The outputs of the fan-out mode\<close>

lemma startswith_append: "startswith (p @ s) p"
  by (simp add: startswith_def)

lemma join_path_root: "join_path base p = join_path base [] @ p"
  by (simp add: join_path_def)

lemma file_stem_change:
  assumes "CHR ''.'' \<notin> set ext" and "CHR ''/'' \<notin> set ext"
  shows "file_stem (file_stem path @ ''.'' @ ext) = file_stem path"
proof -
  let ?s = "file_stem path"
  have r: "rev (?s @ ''.'' @ ext) = rev ext @ CHR ''.'' # rev ?s" by simp
  have t: "takeWhile (\<lambda>ch. ch \<noteq> CHR ''/'') (rev ext @ CHR ''.'' # rev ?s) =
           rev ext @ CHR ''.'' # takeWhile (\<lambda>ch. ch \<noteq> CHR ''/'') (rev ?s)"
    using assms(2) by (induction ext rule: rev_induct) auto
  have d: "dropWhile (\<lambda>ch. ch \<noteq> CHR ''.'') (rev ext @ CHR ''.'' # rev ?s) = CHR ''.'' # rev ?s"
    using assms(1) by (induction ext rule: rev_induct) auto
  show ?thesis
    unfolding file_stem_def [of "file_stem path @ ''.'' @ ext"] r
    by (simp add: t d Let_def)
qed

text \<open>
  C8. For every input path that lies under the input root (the root with its separator,
  followed by a relative path), the output that the fan-out mode derives is the
  output root (the output directory with its separator) followed by the relative path
  with its extension changed; so stripping the output root off the output gives the
  relative input path with its extension changed. Changing the extension leaves a path
  as it is when the executor names no extension, and keeps everything before the
  extension otherwise.
\<close>

theorem fan_out_round_trip:
  assumes "input = input_base_of root @ rel"
    and "CHR ''.'' \<notin> set e" and "CHR ''/'' \<notin> set e"
  shows "fan_out_output (input_base_of root) output_base ext input =
           join_path output_base [] @ change_extension rel ext
       \<and> drop (length (join_path output_base []))
            (fan_out_output (input_base_of root) output_base ext input) = change_extension rel ext
       \<and> change_extension rel None = rel
       \<and> file_stem (change_extension rel (Some e)) = file_stem rel"
  using assms join_path_root [of output_base "change_extension rel ext"]
    file_stem_change [of e rel]
  by (simp add: fan_out_output_def startswith_append change_extension_def)

theorem fan_out_round_trip_witness:
  "''src/a.c'' = input_base_of ''src'' @ ''a.c''
   \<and> CHR ''.'' \<notin> set ''o'' \<and> CHR ''/'' \<notin> set ''o''
   \<and> fan_out_output (input_base_of ''src'') ''build/obj'' (Some ''o'') ''src/a.c'' =
       ''build/obj/a.o''
   \<and> drop (length ''build/obj/'') ''build/obj/a.o'' = ''a.o''
   \<and> file_stem ''a.o'' = file_stem ''a.c''"
proof -
  have h: "''src/a.c'' = input_base_of ''src'' @ ''a.c''"
    "CHR ''.'' \<notin> set ''o''" "CHR ''/'' \<notin> set ''o''"
    by (simp_all add: input_base_of_def endswith_def os_sep_def)
  have j: "join_path ''build/obj'' [] = ''build/obj/''"
    by (simp add: join_path_def endswith_def os_sep_def)
  have c: "change_extension ''a.c'' (Some ''o'') = ''a.o''"
    by (simp add: change_extension_def file_stem_def)
  show ?thesis
    using h j c fan_out_round_trip [OF h, of "''build/obj''" "Some ''o''"]
    by simp
qed

subsection \<open>The order of the rule blocks\<close>



lemma w_line_proj:
  "heap (w_line n t i st) = heap st"
  "all_phase_outputs (w_line n t i st) = all_phase_outputs st"
  "io (w_line n t i st) = io st @ [(n, t, i)]"
  by (simp_all add: w_line_def)





lemma tagged_trans: "tagged n a b \<Longrightarrow> tagged n b c \<Longrightarrow> tagged n a c"
  by (fastforce simp: tagged_def)

lemma tagged_w_line: "tagged n st (w_line n t i st)"
  by (simp add: tagged_def w_line_proj)




















































end
